theory Spec2Isabelle
  imports Main
begin

section \<open>Data model\<close>

text \<open>
  The two generated modules under study are \<open>migrateAllRecordsToNewSchema\<close> and
  \<open>findByUnique\<close>. Both talk to a DynamoDB table whose rows carry the attribute
  \<open>p\<close> (the serialized unique key, the hash key of the table) and the attribute
  \<open>o\<close> (the serialized domain object). The field \<open>o\<close> cannot keep its name
  (\<open>o\<close> is function composition in HOL), so the two attributes are \<open>item_p\<close> and
  \<open>item_o\<close>. The scan projects both (\<open>ProjectionExpression: 'p,o'\<close>).
\<close>

record 'o item =
  item_p :: string
  item_o :: 'o

text \<open>
  The domain object with its metadata (\<open>HasMetadata\<close>): the identity \<open>uuid\<close>, the
  timestamp \<open>updatedAt\<close> that the migration compares with \<open><\<close>, and everything
  else (\<open>attrs\<close>). The type of the timestamp is declared by the domain object and is
  left open: any linearly ordered type.
\<close>

record ('t, 'a) entity =
  uuid :: string
  updatedAt :: 't
  attrs :: 'a

text \<open>
  What a call can throw: \<open>UnexpectedCodePathError\<close> is raised by \<open>findByUnique\<close>
  itself; \<open>TransportFailure\<close> stands for a rejected call of the store client.
\<close>

datatype error =
    UnexpectedCodePathError string
  | TransportFailure string

text \<open>The response of one \<open>scan\<close> request of the document client.\<close>

record ('o, 'k) scanOutput =
  Items :: "'o item list option"
  LastEvaluatedKey :: "'k option"

text \<open>
  The collaborators that the generated code imports and that are not part of the two
  modules: the store client (\<open>scan\<close>, \<open>query\<close> and \<open>put\<close> on the unique key
  table), the canonical \<open>upsert\<close>, the two casts, the serialization of the unique key
  that \<open>findByUnique\<close> places in its key condition, and the table name taken from the
  configuration (\<open>getConfig\<close> is taken to have answered). The store is a value of
  type \<open>'s\<close>; a call that writes returns the new store, a call that throws returns
  \<open>Inl\<close>.

  \<open>query\<close> answers with the payloads only (\<open>attributesToRetrieveInQuery: ['o']\<close>),
  and \<open>castFromDatabaseObject\<close> reads the payload of the row it is given;
  \<open>castToDatabaseObject\<close> stands for the \<open>byUniqueOnNaturalKey\<close> row of its result.
\<close>

record ('s, 'k, 'o, 't, 'a) collaborators =
  uniqueKeyTableName :: string
  scan :: "'s \<Rightarrow> string \<Rightarrow> 'k option \<Rightarrow> error + ('o, 'k) scanOutput"
  query :: "'s \<Rightarrow> string \<Rightarrow> error + 'o list"
  put :: "'o item \<Rightarrow> 's \<Rightarrow> error + 's"
  upsert :: "('t, 'a) entity \<Rightarrow> bool \<Rightarrow> 's \<Rightarrow> error + 's"
  castFromDatabaseObject :: "'o \<Rightarrow> ('t, 'a) entity"
  castToDatabaseObject :: "('t, 'a) entity \<Rightarrow> 'o item"
  serializeUniqueKey :: "('t, 'a) entity \<Rightarrow> string"

text \<open>The report returned by the migration (\<open>from\<close> and \<open>to\<close> are renamed).\<close>

record stats =
  from_table :: string
  to_table :: string
  modified_writtenUniqueKeyRecords :: nat
  migrated_objects :: nat

section \<open>findByUnique\<close>

definition findByUnique ::
  "('s, 'k, 'o, 't, 'a) collaborators \<Rightarrow> 's \<Rightarrow> ('t, 'a) entity
    \<Rightarrow> error + ('t, 'a) entity option" where
  "findByUnique deps s args =
     (case query deps s (serializeUniqueKey deps args) of
        Inl e \<Rightarrow> Inl e
      | Inr items \<Rightarrow>
          if length items = 0 then Inr None
          else if length items > 1
            then Inl (UnexpectedCodePathError ''more than one object found by unique'')
          else Inr (Some (castFromDatabaseObject deps (items ! 0))))"

section \<open>The scan loop\<close>

text \<open>
  \<open>result.Items ?? []\<close>: the page of a response, empty when the list is absent.
\<close>

definition pageItems :: "('o, 'k) scanOutput \<Rightarrow> 'o item list" where
  "pageItems result = (case Items result of None \<Rightarrow> [] | Some its \<Rightarrow> its)"

text \<open>
  The \<open>while (true)\<close> loop of the migration: \<open>scanReq\<close> is the scan request on the
  source table as a function of \<open>ExclusiveStartKey\<close>, \<open>pages\<close> the pages pushed so
  far. The loop may run forever (a store that always hands out another key), so it is a
  partial function: \<open>None\<close> is \<open>does not return\<close>.
\<close>

partial_function (option) scanPages ::
  "('k option \<Rightarrow> error + ('o, 'k) scanOutput) \<Rightarrow> 'o item list list \<Rightarrow> 'k option
    \<Rightarrow> (error + 'o item list list) option" where
  "scanPages scanReq pages lastEvaluatedKey =
     (case scanReq lastEvaluatedKey of
        Inl e \<Rightarrow> Some (Inl e)
      | Inr result \<Rightarrow>
          (case LastEvaluatedKey result of
             None \<Rightarrow> Some (Inr (pages @ [pageItems result]))
           | Some k \<Rightarrow> scanPages scanReq (pages @ [pageItems result]) (Some k)))"

declare scanPages.simps [code]

section \<open>The two fan-out phases\<close>

text \<open>
  Each phase is \<open>Promise.all\<close> over one task per object, admitted by the limiter. A task
  runs between its awaits without interruption, and the tasks interleave at the awaits,
  so a task of the first fan-out takes effect on the store at most twice: when its
  \<open>findByUnique\<close> is answered, and when its \<open>put\<close> is applied.

  \<open>Pending\<close>: not yet looked up. \<open>AwaitingPut\<close>: the lookup allowed the write and the
  \<open>put\<close> of the row is under way. \<open>Settled\<close>: the promise of the task is settled.
\<close>

datatype 'o taskState = Pending | AwaitingPut "'o item" | Settled

record ('s, 'o, 't, 'a) phaseState =
  store :: 's
  taskStates :: "'o taskState list"
  writtenRecords :: "('t, 'a) entity list"
  rejections :: "error list"

definition initPhase :: "'s \<Rightarrow> nat \<Rightarrow> ('s, 'o, 't, 'a) phaseState" where
  "initPhase s n =
     \<lparr>store = s, taskStates = replicate n Pending, writtenRecords = [], rejections = []\<rparr>"

definition settle ::
  "nat \<Rightarrow> ('s, 'o, 't, 'a) phaseState \<Rightarrow> ('s, 'o, 't, 'a) phaseState" where
  "settle i st = st\<lparr>taskStates := (taskStates st)[i := Settled]\<rparr>"

definition reject ::
  "nat \<Rightarrow> error \<Rightarrow> ('s, 'o, 't, 'a) phaseState \<Rightarrow> ('s, 'o, 't, 'a) phaseState" where
  "reject i e st = settle i (st\<lparr>rejections := rejections st @ [e]\<rparr>)"

text \<open>
  The condition of the \<open>if\<close> that guards the write:
  \<open>!alsoFoundByExpectedKey || alsoFoundByExpectedKey.updatedAt < object.updatedAt\<close>.
\<close>

definition safeToWrite :: "('t::linorder, 'a) entity option \<Rightarrow> ('t, 'a) entity \<Rightarrow> bool" where
  "safeToWrite alsoFoundByExpectedKey object =
     (case alsoFoundByExpectedKey of
        None \<Rightarrow> True
      | Some found \<Rightarrow> updatedAt found < updatedAt object)"

text \<open>
  One move of task \<open>index\<close> of the first fan-out (the body of the scheduled function).
  From \<open>Pending\<close> it runs up to the answer of \<open>findByUnique\<close> and on to the next
  await; from \<open>AwaitingPut\<close> it applies the \<open>put\<close> and pushes the object. With
  \<open>dryRun\<close> there is no await after the lookup, so the push happens at once.
\<close>

definition reconcileStep ::
  "bool \<Rightarrow> ('s, 'k, 'o, 't::linorder, 'a) collaborators \<Rightarrow> 'o item list
    \<Rightarrow> ('t, 'a) entity list \<Rightarrow> nat
    \<Rightarrow> ('s, 'o, 't, 'a) phaseState \<Rightarrow> ('s, 'o, 't, 'a) phaseState" where
  "reconcileStep dryRun deps items objects index st =
     (if index < length objects then
        (case taskStates st ! index of
           Pending \<Rightarrow>
             (let object = objects ! index;
                  item = castToDatabaseObject deps object;
                  expectedSerializedUniqueKey = item_p item;
                  foundSerializedUniqueKey = item_p (items ! index)
              in if expectedSerializedUniqueKey = foundSerializedUniqueKey then settle index st
                 else (case findByUnique deps (store st) object of
                         Inl e \<Rightarrow> reject index e st
                       | Inr alsoFoundByExpectedKey \<Rightarrow>
                           if safeToWrite alsoFoundByExpectedKey object then
                             (if dryRun
                              then settle index
                                     (st\<lparr>writtenRecords := writtenRecords st @ [object]\<rparr>)
                              else st\<lparr>taskStates := (taskStates st)[index := AwaitingPut item]\<rparr>)
                           else settle index st))
         | AwaitingPut item \<Rightarrow>
             (case put deps item (store st) of
                Inl e \<Rightarrow> reject index e st
              | Inr s' \<Rightarrow>
                  settle index
                    (st\<lparr>store := s',
                       writtenRecords := writtenRecords st @ [objects ! index]\<rparr>))
         | Settled \<Rightarrow> st)
      else st)"

text \<open>
  One move of task \<open>index\<close> of the second fan-out: \<open>upsert\<close> with \<open>force: true\<close>,
  taken as one step on the store.
\<close>

definition rewriteStep ::
  "('s, 'k, 'o, 't, 'a) collaborators \<Rightarrow> ('t, 'a) entity list \<Rightarrow> nat
    \<Rightarrow> ('s, 'o, 't, 'a) phaseState \<Rightarrow> ('s, 'o, 't, 'a) phaseState" where
  "rewriteStep deps objects index st =
     (if index < length objects then
        (case taskStates st ! index of
           Pending \<Rightarrow>
             (case upsert deps (objects ! index) True (store st) of
                Inl e \<Rightarrow> reject index e st
              | Inr s' \<Rightarrow> settle index (st\<lparr>store := s'\<rparr>))
         | AwaitingPut item \<Rightarrow> st
         | Settled \<Rightarrow> st)
      else st)"

text \<open>
  A fan-out under a schedule: \<open>sched\<close> lists the tasks in the order in which they move
  (any list of indices: a move of a settled task or of no task changes nothing). Every
  task is run to its end afterwards, since no task is ever cancelled; \<open>k\<close> is the
  largest number of moves a task can make. The limiter only narrows the schedules that
  can occur and is not part of the model.
\<close>

definition runTasks ::
  "(nat \<Rightarrow> 'st \<Rightarrow> 'st) \<Rightarrow> nat list \<Rightarrow> nat \<Rightarrow> nat \<Rightarrow> 'st \<Rightarrow> 'st" where
  "runTasks step sched n k st = fold step (sched @ concat (replicate k [0..<n])) st"

text \<open>
  \<open>await Promise.all(...)\<close>: the first rejection, in the order in which the tasks
  rejected, is thrown; with no rejection the phase is complete.
\<close>

definition promiseAll :: "('s, 'o, 't, 'a) phaseState \<Rightarrow> error option" where
  "promiseAll st = (case rejections st of [] \<Rightarrow> None | e # _ \<Rightarrow> Some e)"

section \<open>migrateAllRecordsToNewSchema\<close>

definition sourceTable :: "('s, 'k, 'o, 't, 'a) collaborators \<Rightarrow> string option \<Rightarrow> string" where
  "sourceTable deps inputSourceTableName =
     (case inputSourceTableName of None \<Rightarrow> uniqueKeyTableName deps | Some name \<Rightarrow> name)"

text \<open>\<open>items.map(castFromDatabaseObject)\<close>\<close>

definition decodeItems ::
  "('s, 'k, 'o, 't, 'a) collaborators \<Rightarrow> 'o item list \<Rightarrow> ('t, 'a) entity list" where
  "decodeItems deps items = map (\<lambda>it. castFromDatabaseObject deps (item_o it)) items"

text \<open>
  The first fan-out (every task makes at most two moves) and the second one (one move),
  each from a store \<open>s\<close> under a schedule.
\<close>

definition reconcilePhase ::
  "bool \<Rightarrow> ('s, 'k, 'o, 't::linorder, 'a) collaborators \<Rightarrow> 'o item list
    \<Rightarrow> ('t, 'a) entity list \<Rightarrow> nat list \<Rightarrow> 's \<Rightarrow> ('s, 'o, 't, 'a) phaseState" where
  "reconcilePhase dryRun deps items objects sched s =
     runTasks (reconcileStep dryRun deps items objects) sched (length objects) 2
       (initPhase s (length objects))"

definition rewritePhase ::
  "('s, 'k, 'o, 't, 'a) collaborators \<Rightarrow> ('t, 'a) entity list \<Rightarrow> nat list \<Rightarrow> 's
    \<Rightarrow> ('s, 'o, 't, 'a) phaseState" where
  "rewritePhase deps objects sched s =
     runTasks (rewriteStep deps objects) sched (length objects) 1
       (initPhase s (length objects))"

text \<open>
  The result is \<open>None\<close> when the scan loop does not return; otherwise the outcome of
  the call (the error thrown, or the report) with the store as the tasks leave it.
  \<open>schedA\<close> and \<open>schedB\<close> are the schedules of the two fan-outs.
\<close>

definition migrateAllRecordsToNewSchema ::
  "('s, 'k, 'o, 't::linorder, 'a) collaborators \<Rightarrow> nat list \<Rightarrow> nat list
    \<Rightarrow> bool \<Rightarrow> string option \<Rightarrow> 's \<Rightarrow> ((error + stats) \<times> 's) option" where
  "migrateAllRecordsToNewSchema deps schedA schedB dryRun inputSourceTableName s =
     (let sourceTableName = sourceTable deps inputSourceTableName
      in case scanPages (scan deps s sourceTableName) [] None of
           None \<Rightarrow> None
         | Some (Inl e) \<Rightarrow> Some (Inl e, s)
         | Some (Inr pages) \<Rightarrow>
             (let items = concat pages;
                  objects = decodeItems deps items;
                  stA = reconcilePhase dryRun deps items objects schedA s
              in case promiseAll stA of
                   Some e \<Rightarrow> Some (Inl e, store stA)
                 | None \<Rightarrow>
                     (let stB =
                            (if \<not> dryRun then rewritePhase deps objects schedB (store stA)
                             else initPhase (store stA) 0)
                      in case promiseAll stB of
                           Some e \<Rightarrow> Some (Inl e, store stB)
                         | None \<Rightarrow>
                             Some (Inr \<lparr>from_table = sourceTableName,
                                        to_table = uniqueKeyTableName deps,
                                        modified_writtenUniqueKeyRecords =
                                          length (writtenRecords stA),
                                        migrated_objects = length objects\<rparr>,
                                   store stB))))"

section \<open>The responses of a scan, as the specification describes them\<close>

text \<open>
  \<open>scanChain scanReq tok results\<close>: \<open>results\<close> are the responses of the requests that
  start at the continuation token \<open>tok\<close>, each request carrying the token of the
  response before it, up to the first response that carries no token.
\<close>

inductive scanChain ::
  "('k option \<Rightarrow> error + ('o, 'k) scanOutput) \<Rightarrow> 'k option \<Rightarrow> ('o, 'k) scanOutput list
    \<Rightarrow> bool"
  for scanReq :: "'k option \<Rightarrow> error + ('o, 'k) scanOutput" where
  scanChain_last:
    "scanReq tok = Inr result \<Longrightarrow> LastEvaluatedKey result = None
      \<Longrightarrow> scanChain scanReq tok [result]"
| scanChain_next:
    "scanReq tok = Inr result \<Longrightarrow> LastEvaluatedKey result = Some k
      \<Longrightarrow> scanChain scanReq (Some k) results
      \<Longrightarrow> scanChain scanReq tok (result # results)"

code_pred scanChain .



section \<open>A reference store\<close>

text \<open>
  Modelled from the spec: the key-value store client, the record codec and the canonical
  write path \<open>upsert\<close>, none of which is among the sources. The store holds the unique
  index table (hash key \<open>p\<close>), any other table by name, and the number of identities
  minted so far. A row stores the entity itself, so both casts are the identity on the
  payload, and the unique key of an entity is \<open>keyOf\<close> of its attributes (the
  serialization of the current schema).
\<close>

record ('t, 'a) refStore =
  uniqueTable :: "('t, 'a) entity item list"
  otherTables :: "(string \<times> ('t, 'a) entity item list) list"
  minted :: nat

text \<open>
  Modelled from the spec: the name of the unique index table, which the sources build
  from the configuration (\<open>getTypescriptTableNameBuilderCode\<close> is not among them).
\<close>

definition refUniqueTableName :: string where
  "refUniqueTableName = ''byUniqueOnNaturalKey''"

text \<open>Modelled from the spec: the rows of a table of the store, by name.\<close>

definition refTable :: "('t, 'a) refStore \<Rightarrow> string \<Rightarrow> ('t, 'a) entity item list" where
  "refTable s name =
     (if name = refUniqueTableName then uniqueTable s
      else (case map_of (otherTables s) name of None \<Rightarrow> [] | Some rows \<Rightarrow> rows))"

text \<open>
  Modelled from the spec: \<open>scan(table, projection, continuationToken)\<close> answers with
  the next \<open>pageSize\<close> rows and, while rows remain, the token of the row to go on from.
\<close>

definition refScan ::
  "nat \<Rightarrow> ('t, 'a) refStore \<Rightarrow> string \<Rightarrow> nat option
    \<Rightarrow> error + (('t, 'a) entity, nat) scanOutput" where
  "refScan pageSize s name tok =
     (let rows = refTable s name;
          start = (case tok of None \<Rightarrow> 0 | Some k \<Rightarrow> k)
      in Inr \<lparr>Items = Some (take pageSize (drop start rows)),
              LastEvaluatedKey =
                (if start + pageSize < length rows then Some (start + pageSize) else None)\<rparr>)"

text \<open>Modelled from the spec: the point query of the unique index by serialized key.\<close>

definition refQuery :: "('t, 'a) refStore \<Rightarrow> string \<Rightarrow> error + ('t, 'a) entity list" where
  "refQuery s k = Inr (map item_o (filter (\<lambda>it. item_p it = k) (uniqueTable s)))"

text \<open>
  Modelled from the spec: \<open>putUniqueIndexRecord\<close>, the unconditional put; the row
  takes the place of whatever the table holds under the same hash key.
\<close>

definition refPut ::
  "('t, 'a) entity item \<Rightarrow> ('t, 'a) refStore \<Rightarrow> error + ('t, 'a) refStore" where
  "refPut it s =
     Inr (s\<lparr>uniqueTable := it # filter (\<lambda>x. item_p x \<noteq> item_p it) (uniqueTable s)\<rparr>)"

text \<open>
  Modelled from the spec: the identity that the write path assigns to an entity it does
  not find, a fresh one for every call.
\<close>

definition mintUuid :: "nat \<Rightarrow> string" where
  "mintUuid n = ''minted-'' @ replicate n (CHR ''i'')"

text \<open>
  Modelled from the spec: \<open>lookupByUniqueKey(entity)\<close> as the write path calls it,
  which is \<open>findByUnique\<close> on this store (lemma \<open>findByUnique_refDeps\<close>).
\<close>

definition refLookup ::
  "('a \<Rightarrow> string) \<Rightarrow> ('t, 'a) refStore \<Rightarrow> ('t, 'a) entity
    \<Rightarrow> error + ('t, 'a) entity option" where
  "refLookup keyOf s e =
     (case refQuery s (keyOf (attrs e)) of
        Inl err \<Rightarrow> Inl err
      | Inr found \<Rightarrow>
          (case found of
             [] \<Rightarrow> Inr None
           | [f] \<Rightarrow> Inr (Some f)
           | _ \<Rightarrow> Inl (UnexpectedCodePathError ''more than one object found by unique'')))"

text \<open>
  Modelled from the spec: the canonical write path \<open>upsert(entity, { force })\<close>. It
  makes its own lookup by the unique key; an entity that is found keeps the identity of
  the record found, one that is not found is assigned a new identity; without
  \<open>force\<close>, a found record with no change is left alone. The entity is written as
  it is given, its \<open>updatedAt\<close> included (the spec lets a repeated run meet equal
  timestamps). Only the write to the unique index is modelled.
\<close>

definition refUpsert ::
  "('a \<Rightarrow> string) \<Rightarrow> ('t, 'a) entity \<Rightarrow> bool \<Rightarrow> ('t, 'a) refStore
    \<Rightarrow> error + ('t, 'a) refStore" where
  "refUpsert keyOf e force s =
     (case refLookup keyOf s e of
        Inl err \<Rightarrow> Inl err
      | Inr None \<Rightarrow>
          refPut \<lparr>item_p = keyOf (attrs e), item_o = e\<lparr>uuid := mintUuid (minted s)\<rparr>\<rparr>
            (s\<lparr>minted := Suc (minted s)\<rparr>)
      | Inr (Some found) \<Rightarrow>
          if \<not> force \<and> attrs found = attrs e then Inr s
          else refPut \<lparr>item_p = keyOf (attrs e), item_o = e\<lparr>uuid := uuid found\<rparr>\<rparr> s)"

text \<open>
  Modelled from the spec: the collaborators of the generated code on this store, with
  pages of \<open>pageSize\<close> rows and \<open>keyOf\<close> as the serialization of the unique key.
\<close>

definition refDeps ::
  "nat \<Rightarrow> ('a \<Rightarrow> string)
    \<Rightarrow> (('t, 'a) refStore, nat, ('t, 'a) entity, 't, 'a) collaborators" where
  "refDeps pageSize keyOf =
     \<lparr>uniqueKeyTableName = refUniqueTableName,
      scan = refScan pageSize,
      query = refQuery,
      put = refPut,
      upsert = refUpsert keyOf,
      castFromDatabaseObject = (\<lambda>x. x),
      castToDatabaseObject = (\<lambda>e. \<lparr>item_p = keyOf (attrs e), item_o = e\<rparr>),
      serializeUniqueKey = (\<lambda>e. keyOf (attrs e))\<rparr>"

section \<open>Notions for the claims about identities\<close>




section \<open>Notions for the claim about a second run\<close>


text \<open>The row that the reconciler puts for an entity: the entity under its derived key.\<close>

definition rowOf :: "('a \<Rightarrow> string) \<Rightarrow> ('t, 'a) entity \<Rightarrow> ('t, 'a) entity item" where
  "rowOf keyOf e = \<lparr>item_p = keyOf (attrs e), item_o = e\<rparr>"



section \<open>Example stores\<close>

text \<open>
  Forty rows stored under their current keys \<open>k00\<close> to \<open>k39\<close>, scanned in pages of
  fifteen; and a scan that answers twice without a list of items.
\<close>

definition keyK :: "nat \<Rightarrow> string" where
  "keyK n = [CHR ''k'', char_of (48 + n div 10), char_of (48 + n mod 10)]"

definition rowAt :: "nat \<Rightarrow> (nat, nat) entity item" where
  "rowAt n = \<lparr>item_p = keyK n,
              item_o = \<lparr>uuid = CHR ''u'' # keyK n, updatedAt = n, attrs = n\<rparr>\<rparr>"

definition store40 :: "(nat, nat) refStore" where
  "store40 = \<lparr>uniqueTable = map rowAt [0..<40], otherTables = [], minted = 0\<rparr>"

definition deps40 ::
  "((nat, nat) refStore, nat, (nat, nat) entity, nat, nat) collaborators" where
  "deps40 = refDeps 15 keyK"

definition absentItemsDeps ::
  "((nat, nat) refStore, nat, (nat, nat) entity, nat, nat) collaborators" where
  "absentItemsDeps =
     (refDeps 1 keyK)
       \<lparr>scan := (\<lambda>s name tok.
           case tok of
             None \<Rightarrow> Inr \<lparr>Items = None, LastEvaluatedKey = Some 1\<rparr>
           | Some k \<Rightarrow> Inr \<lparr>Items = None, LastEvaluatedKey = None\<rparr>)\<rparr>"

text \<open>
  Entities that are named by their natural key; the current schema serializes the key
  of \<open>ann\<close> as \<open>v2:ann\<close>, and rows under \<open>v0:\<close> and \<open>v1:\<close> are left from
  earlier schemas. \<open>driftedStore\<close> holds two stale rows and a current one.
\<close>

definition keyV2 :: "string \<Rightarrow> string" where
  "keyV2 a = ''v2:'' @ a"

definition depsV2 ::
  "((nat, string) refStore, nat, (nat, string) entity, nat, string) collaborators" where
  "depsV2 = refDeps 2 keyV2"

definition person :: "string \<Rightarrow> nat \<Rightarrow> string \<Rightarrow> (nat, string) entity" where
  "person ident t a = \<lparr>uuid = ident, updatedAt = t, attrs = a\<rparr>"

definition driftedStore :: "(nat, string) refStore" where
  "driftedStore =
     \<lparr>uniqueTable =
        [\<lparr>item_p = ''v1:ann'', item_o = person ''u-ann'' 5 ''ann''\<rparr>,
         \<lparr>item_p = ''v2:bob'', item_o = person ''u-bob'' 7 ''bob''\<rparr>,
         \<lparr>item_p = ''v1:cy'', item_o = person ''u-cy'' 3 ''cy''\<rparr>],
      otherTables = [],
      minted = 0\<rparr>"


text \<open>A store client that rejects one put, and a write path that rejects one upsert.\<close>

definition throttledPutDeps ::
  "((nat, string) refStore, nat, (nat, string) entity, nat, string) collaborators" where
  "throttledPutDeps =
     depsV2\<lparr>put := (\<lambda>it s. if item_p it = ''v2:ann'' then Inl (TransportFailure ''throttled'')
                          else refPut it s)\<rparr>"

definition throttledUpsertDeps ::
  "((nat, string) refStore, nat, (nat, string) entity, nat, string) collaborators" where
  "throttledUpsertDeps =
     depsV2\<lparr>upsert := (\<lambda>e force s. if attrs e = ''bob'' then Inl (TransportFailure ''throttled'')
                               else refUpsert keyV2 e force s)\<rparr>"




definition snapshotStore :: "(nat, string) refStore" where
  "snapshotStore =
     \<lparr>uniqueTable = [],
      otherTables =
        [(''snapshot'', [\<lparr>item_p = ''v2:ann'', item_o = person ''u-ann'' 5 ''ann''\<rparr>])],
      minted = 0\<rparr>"







section \<open>The scan loop and the chain of responses\<close>

lemma scanPages_chain:
  "scanChain scanReq tok results
    \<Longrightarrow> scanPages scanReq pages tok = Some (Inr (pages @ map pageItems results))"
proof (induction arbitrary: pages rule: scanChain.induct)
  case (scanChain_last tok result)
  then show ?case by (subst scanPages.simps) simp
next
  case (scanChain_next tok result k results)
  then show ?case by (subst scanPages.simps) simp
qed

lemma scanPages_returns:
  "scanPages scanReq pages tok = Some out
    \<Longrightarrow> (\<exists>e. out = Inl e) \<or> (\<exists>results. scanChain scanReq tok results \<and> out = Inr (pages @ map pageItems results))"
proof (induct scanReq pages tok out rule: scanPages.raw_induct[rotated 1, consumes 1])
  case (1 scanPages' scanReq pages tok out)
  show ?case
  proof (cases "scanReq tok")
    case (Inl e)
    with 1(2) show ?thesis by auto
  next
    case (Inr result)
    show ?thesis
    proof (cases "LastEvaluatedKey result")
      case None
      with Inr 1(2) have "out = Inr (pages @ [pageItems result])" by simp
      moreover have "scanChain scanReq tok [result]" using Inr None by (rule scanChain_last)
      ultimately show ?thesis by auto
    next
      case (Some k)
      with Inr 1(2) have "scanPages' scanReq (pages @ [pageItems result]) (Some k) = Some out" by simp
      from 1(1)[OF this] show ?thesis
      proof
        assume "\<exists>e. out = Inl e" then show ?thesis ..
      next
        assume "\<exists>results. scanChain scanReq (Some k) results \<and> out = Inr ((pages @ [pageItems result]) @ map pageItems results)"
        then obtain results where r: "scanChain scanReq (Some k) results" "out = Inr ((pages @ [pageItems result]) @ map pageItems results)" by blast
        have "scanChain scanReq tok (result # results)" using Inr Some r(1) by (rule scanChain_next)
        with r(2) show ?thesis by auto
      qed
    qed
  qed
qed

section \<open>Progress of the tasks\<close>

lemma settle_simps:
  "store (settle i st) = store st"
  "writtenRecords (settle i st) = writtenRecords st"
  "rejections (settle i st) = rejections st"
  "taskStates (settle i st) = (taskStates st)[i := Settled]"
  by (simp_all add: settle_def)

lemma reject_simps:
  "store (reject i e st) = store st"
  "writtenRecords (reject i e st) = writtenRecords st"
  "rejections (reject i e st) = rejections st @ [e]"
  "taskStates (reject i e st) = (taskStates st)[i := Settled]"
  by (simp_all add: reject_def settle_def)

lemma reconcileStep_length:
  "length (taskStates (reconcileStep dryRun deps items objects i st)) = length (taskStates st)"
  by (simp add: reconcileStep_def Let_def settle_simps reject_simps
      split: taskState.splits sum.splits)

lemma reconcileStep_other:
  "j \<noteq> i \<Longrightarrow> taskStates (reconcileStep dryRun deps items objects j st) ! i = taskStates st ! i"
  by (simp add: reconcileStep_def Let_def settle_simps reject_simps
      split: taskState.splits sum.splits)

lemma reconcileStep_Settled:
  "taskStates st ! i = Settled \<Longrightarrow> reconcileStep dryRun deps items objects i st = st"
  by (simp add: reconcileStep_def)

lemma reconcileStep_leaves_Pending:
  "i < length objects \<Longrightarrow> i < length (taskStates st)
    \<Longrightarrow> taskStates (reconcileStep dryRun deps items objects i st) ! i \<noteq> Pending"
  by (simp add: reconcileStep_def Let_def settle_simps reject_simps
      split: taskState.splits sum.splits)

lemma reconcileStep_settles:
  "i < length objects \<Longrightarrow> i < length (taskStates st) \<Longrightarrow> taskStates st ! i \<noteq> Pending
    \<Longrightarrow> taskStates (reconcileStep dryRun deps items objects i st) ! i = Settled"
  by (simp add: reconcileStep_def Let_def settle_simps reject_simps
      split: taskState.splits sum.splits)

lemma reconcileStep_keeps_nonPending:
  "i < length (taskStates st) \<Longrightarrow> taskStates st ! i \<noteq> Pending
    \<Longrightarrow> taskStates (reconcileStep dryRun deps items objects j st) ! i \<noteq> Pending"
  by (cases "j = i")
     (simp_all add: reconcileStep_def Let_def settle_simps reject_simps
      split: taskState.splits sum.splits)

lemma reconcileStep_keeps_Settled:
  "taskStates st ! i = Settled
    \<Longrightarrow> taskStates (reconcileStep dryRun deps items objects j st) ! i = Settled"
  by (cases "j = i") (simp_all add: reconcileStep_Settled reconcileStep_other)

lemma fold_reconcile_length:
  "length (taskStates (fold (reconcileStep dryRun deps items objects) sched st))
    = length (taskStates st)"
  by (induction sched arbitrary: st) (simp_all add: reconcileStep_length)

lemma fold_reconcile_keeps_Settled:
  "taskStates st ! i = Settled
    \<Longrightarrow> taskStates (fold (reconcileStep dryRun deps items objects) sched st) ! i = Settled"
  by (induction sched arbitrary: st) (simp_all add: reconcileStep_keeps_Settled)

lemma fold_reconcile_keeps_nonPending:
  "i < length (taskStates st) \<Longrightarrow> taskStates st ! i \<noteq> Pending
    \<Longrightarrow> taskStates (fold (reconcileStep dryRun deps items objects) sched st) ! i \<noteq> Pending"
  by (induction sched arbitrary: st)
     (simp_all add: reconcileStep_keeps_nonPending reconcileStep_length)

lemma fold_reconcile_leaves_Pending:
  "i \<in> set sched \<Longrightarrow> i < length objects \<Longrightarrow> i < length (taskStates st)
    \<Longrightarrow> taskStates (fold (reconcileStep dryRun deps items objects) sched st) ! i \<noteq> Pending"
proof (induction sched arbitrary: st)
  case Nil
  then show ?case by simp
next
  case (Cons j sched)
  show ?case
  proof (cases "j = i")
    case True
    have "taskStates (reconcileStep dryRun deps items objects i st) ! i \<noteq> Pending"
      using Cons.prems by (simp add: reconcileStep_leaves_Pending)
    then show ?thesis
      using True Cons.prems
      by (simp add: fold_reconcile_keeps_nonPending reconcileStep_length)
  next
    case False
    with Cons show ?thesis by (simp add: reconcileStep_length)
  qed
qed

lemma fold_reconcile_settles:
  "i \<in> set sched \<Longrightarrow> i < length objects \<Longrightarrow> i < length (taskStates st)
    \<Longrightarrow> taskStates st ! i \<noteq> Pending
    \<Longrightarrow> taskStates (fold (reconcileStep dryRun deps items objects) sched st) ! i = Settled"
proof (induction sched arbitrary: st)
  case Nil
  then show ?case by simp
next
  case (Cons j sched)
  show ?case
  proof (cases "j = i")
    case True
    have "taskStates (reconcileStep dryRun deps items objects i st) ! i = Settled"
      using Cons.prems by (simp add: reconcileStep_settles)
    then show ?thesis
      using True by (simp add: fold_reconcile_keeps_Settled)
  next
    case False
    with Cons show ?thesis
      by (simp add: reconcileStep_length reconcileStep_keeps_nonPending)
  qed
qed

lemma initPhase_simps:
  "store (initPhase s n) = s"
  "taskStates (initPhase s n) = replicate n Pending"
  "writtenRecords (initPhase s n) = []"
  "rejections (initPhase s n) = []"
  by (simp_all add: initPhase_def)

lemma reconcilePhase_all_settled:
  assumes "i < length objects"
  shows "taskStates (reconcilePhase dryRun deps items objects sched s) ! i = Settled"
proof -
  let ?step = "reconcileStep dryRun deps items objects"
  let ?n = "length objects"
  let ?st0 = "initPhase s ?n"
  let ?st1 = "fold ?step (sched @ [0..<?n]) ?st0"
  have len: "length (taskStates ?st1) = ?n"
    by (simp add: fold_reconcile_length initPhase_simps del: fold_append)
  have "taskStates ?st1 ! i \<noteq> Pending"
    using assms
    by (simp add: fold_reconcile_leaves_Pending fold_reconcile_length initPhase_simps)
  then have "taskStates (fold ?step [0..<?n] ?st1) ! i = Settled"
    using assms len by (intro fold_reconcile_settles) simp_all
  then show ?thesis
    by (simp add: reconcilePhase_def runTasks_def numeral_2_eq_2)
qed

lemma rewriteStep_length:
  "length (taskStates (rewriteStep deps objects i st)) = length (taskStates st)"
  by (simp add: rewriteStep_def settle_simps reject_simps split: taskState.splits sum.splits)

lemma rewriteStep_other:
  "j \<noteq> i \<Longrightarrow> taskStates (rewriteStep deps objects j st) ! i = taskStates st ! i"
  by (simp add: rewriteStep_def settle_simps reject_simps split: taskState.splits sum.splits)

lemma rewriteStep_Settled:
  "taskStates st ! i = Settled \<Longrightarrow> rewriteStep deps objects i st = st"
  by (simp add: rewriteStep_def)

lemma rewriteStep_keeps_Settled:
  "taskStates st ! i = Settled \<Longrightarrow> taskStates (rewriteStep deps objects j st) ! i = Settled"
  by (cases "j = i") (simp_all add: rewriteStep_Settled rewriteStep_other)

lemma rewriteStep_keeps_free_of_put:
  "length (taskStates st) = length objects
    \<Longrightarrow> (\<forall>i < length (taskStates st). \<forall>it. taskStates st ! i \<noteq> AwaitingPut it)
    \<Longrightarrow> (\<forall>i < length (taskStates (rewriteStep deps objects j st)).
          \<forall>it. taskStates (rewriteStep deps objects j st) ! i \<noteq> AwaitingPut it)"
  by (auto simp: rewriteStep_def settle_simps reject_simps nth_list_update
      split: taskState.splits sum.splits)

lemma rewriteStep_settles:
  "i < length objects \<Longrightarrow> i < length (taskStates st)
    \<Longrightarrow> (\<forall>it. taskStates st ! i \<noteq> AwaitingPut it)
    \<Longrightarrow> taskStates (rewriteStep deps objects i st) ! i = Settled"
  by (simp add: rewriteStep_def settle_simps reject_simps split: taskState.splits sum.splits)

lemma fold_rewrite_length:
  "length (taskStates (fold (rewriteStep deps objects) sched st)) = length (taskStates st)"
  by (induction sched arbitrary: st) (simp_all add: rewriteStep_length)

lemma fold_rewrite_keeps_Settled:
  "taskStates st ! i = Settled
    \<Longrightarrow> taskStates (fold (rewriteStep deps objects) sched st) ! i = Settled"
  by (induction sched arbitrary: st) (simp_all add: rewriteStep_keeps_Settled)

lemma fold_rewrite_free_of_put:
  "length (taskStates st) = length objects
    \<Longrightarrow> (\<forall>i < length (taskStates st). \<forall>it. taskStates st ! i \<noteq> AwaitingPut it)
    \<Longrightarrow> (\<forall>i < length (taskStates (fold (rewriteStep deps objects) sched st)).
          \<forall>it. taskStates (fold (rewriteStep deps objects) sched st) ! i \<noteq> AwaitingPut it)"
proof (induction sched arbitrary: st)
  case Nil
  then show ?case by simp
next
  case (Cons j sched)
  from rewriteStep_keeps_free_of_put[OF Cons.prems]
  have a: "\<forall>i < length (taskStates (rewriteStep deps objects j st)).
          \<forall>it. taskStates (rewriteStep deps objects j st) ! i \<noteq> AwaitingPut it" .
  have b: "length (taskStates (rewriteStep deps objects j st)) = length objects"
    using Cons.prems(1) by (simp add: rewriteStep_length)
  from Cons.IH[OF b a] show ?case by simp
qed

lemma fold_rewrite_settles:
  "i \<in> set sched \<Longrightarrow> i < length objects \<Longrightarrow> i < length (taskStates st)
    \<Longrightarrow> length (taskStates st) = length objects
    \<Longrightarrow> (\<forall>i < length (taskStates st). \<forall>it. taskStates st ! i \<noteq> AwaitingPut it)
    \<Longrightarrow> taskStates (fold (rewriteStep deps objects) sched st) ! i = Settled"
proof (induction sched arbitrary: st)
  case Nil
  then show ?case by simp
next
  case (Cons j sched)
  show ?case
  proof (cases "j = i")
    case True
    have "taskStates (rewriteStep deps objects i st) ! i = Settled"
      using Cons.prems by (simp add: rewriteStep_settles)
    then show ?thesis
      using True by (simp add: fold_rewrite_keeps_Settled)
  next
    case False
    have "\<forall>i < length (taskStates (rewriteStep deps objects j st)).
          \<forall>it. taskStates (rewriteStep deps objects j st) ! i \<noteq> AwaitingPut it"
      using Cons.prems(4,5) by (intro rewriteStep_keeps_free_of_put) simp_all
    with Cons False show ?thesis
      by (simp add: rewriteStep_length)
  qed
qed

lemma rewritePhase_all_settled:
  assumes "i < length objects"
  shows "taskStates (rewritePhase deps objects sched s) ! i = Settled"
proof -
  let ?step = "rewriteStep deps objects"
  let ?n = "length objects"
  let ?st1 = "fold ?step sched (initPhase s ?n)"
  have len: "length (taskStates ?st1) = ?n"
    by (simp add: fold_rewrite_length initPhase_simps)
  have "\<forall>i < length (taskStates ?st1). \<forall>it. taskStates ?st1 ! i \<noteq> AwaitingPut it"
    by (rule fold_rewrite_free_of_put) (simp_all add: initPhase_simps)
  then have "taskStates (fold ?step [0..<?n] ?st1) ! i = Settled"
    using assms len by (intro fold_rewrite_settles) simp_all
  then show ?thesis
    by (simp add: rewritePhase_def runTasks_def)
qed


lemma rewriteStep_rejections:
  "\<exists>es. rejections (rewriteStep deps objects i st) = rejections st @ es"
  by (simp add: rewriteStep_def settle_simps reject_simps split: taskState.splits sum.splits)


lemma fold_rewrite_rejections:
  "\<exists>es. rejections (fold (rewriteStep deps objects) sched st) = rejections st @ es"
proof (induction sched arbitrary: st)
  case Nil
  then show ?case by simp
next
  case (Cons j sched)
  obtain es where a: "rejections (rewriteStep deps objects j st) = rejections st @ es"
    using rewriteStep_rejections by blast
  obtain es' where "rejections (fold (rewriteStep deps objects) sched
       (rewriteStep deps objects j st))
     = rejections (rewriteStep deps objects j st) @ es'"
    using Cons.IH by blast
  with a show ?case by simp
qed

text \<open>With \<open>dryRun\<close> no move changes the store.\<close>

lemma reconcileStep_dryRun_store:
  "length (taskStates st) = length objects
    \<Longrightarrow> (\<forall>i < length (taskStates st). \<forall>it. taskStates st ! i \<noteq> AwaitingPut it)
    \<Longrightarrow> store (reconcileStep True deps items objects j st) = store st
      \<and> (\<forall>i < length (taskStates (reconcileStep True deps items objects j st)).
           \<forall>it. taskStates (reconcileStep True deps items objects j st) ! i \<noteq> AwaitingPut it)"
  by (auto simp: reconcileStep_def Let_def settle_simps reject_simps nth_list_update
      split: taskState.splits sum.splits)

lemma fold_reconcile_dryRun_store:
  "length (taskStates st) = length objects
    \<Longrightarrow> (\<forall>i < length (taskStates st). \<forall>it. taskStates st ! i \<noteq> AwaitingPut it)
    \<Longrightarrow> store (fold (reconcileStep True deps items objects) sched st) = store st"
proof (induction sched arbitrary: st)
  case Nil
  then show ?case by simp
next
  case (Cons j sched)
  from reconcileStep_dryRun_store[OF Cons.prems, of deps items j]
  show ?case using Cons.IH Cons.prems(1) by (simp add: reconcileStep_length)
qed

lemma reconcilePhase_dryRun_store:
  "store (reconcilePhase True deps items objects sched s) = s"
  unfolding reconcilePhase_def runTasks_def
  by (subst fold_reconcile_dryRun_store) (simp_all add: initPhase_simps)

text \<open>With no object there is no task, and no move does anything.\<close>

lemma reconcilePhase_Nil:
  "reconcilePhase dryRun deps items [] sched s = initPhase s 0"
proof -
  have "fold (reconcileStep dryRun deps items []) xs st = st" for xs st
    by (induction xs) (simp_all add: reconcileStep_def)
  then show ?thesis by (simp add: reconcilePhase_def runTasks_def)
qed

lemma rewritePhase_Nil:
  "rewritePhase deps [] sched s = initPhase s 0"
proof -
  have "fold (rewriteStep deps []) xs st = st" for xs st
    by (induction xs) (simp_all add: rewriteStep_def)
  then show ?thesis by (simp add: rewritePhase_def runTasks_def)
qed

lemma promiseAll_initPhase: "promiseAll (initPhase s n) = None"
  by (simp add: promiseAll_def initPhase_def)

section \<open>Claims about the scan and the report\<close>

lemma scanPages_iff_chain:
  "scanPages scanReq pages tok = Some (Inr out)
    \<longleftrightarrow> (\<exists>results. scanChain scanReq tok results \<and> out = pages @ map pageItems results)"
  using scanPages_chain[of scanReq tok _ pages] scanPages_returns[of scanReq pages tok "Inr out"]
  by auto

lemma migrate_after_scan:
  assumes "scanPages (scan deps s (sourceTable deps src)) [] None = Some (Inr pages)"
  shows "\<exists>outcome s'.
           migrateAllRecordsToNewSchema deps schedA schedB dryRun src s = Some (outcome, s')
           \<and> (\<forall>report. outcome = Inr report \<longrightarrow> migrated_objects report = length (concat pages))"
  using assms
  by (auto simp: migrateAllRecordsToNewSchema_def Let_def decodeItems_def
      split: option.splits sum.splits)

lemma migrate_report_scan:
  assumes "migrateAllRecordsToNewSchema deps schedA schedB dryRun src s = Some (Inr report, s')"
  shows "\<exists>pages. scanPages (scan deps s (sourceTable deps src)) [] None = Some (Inr pages)
           \<and> migrated_objects report = length (concat pages)"
  using assms
  by (auto simp: migrateAllRecordsToNewSchema_def Let_def decodeItems_def
      split: option.splits sum.splits)

lemma migrate_dryRun_store:
  assumes "migrateAllRecordsToNewSchema deps schedA schedB True src s = Some (outcome, s')"
  shows "s' = s"
  using assms
  by (auto simp: migrateAllRecordsToNewSchema_def Let_def reconcilePhase_dryRun_store
      initPhase_simps split: option.splits sum.splits)

text \<open>
  Claim C5. The scan loop returns exactly when the chain of responses, each requested
  with the token of the one before, reaches a response without a token, and then it
  yields the pages of those responses in order. On such a source table the number of
  decoded objects is the total number of records of all pages, the migration returns,
  and a report it returns carries that total as \<open>migrated.objects\<close>.
\<close>

theorem scan_follows_tokens_to_the_end:
  fixes deps :: "('s, 'k, 'o, 't::linorder, 'a) collaborators"
  shows
    "(scanPages scanReq [] None = Some (Inr pages)
        \<longleftrightarrow> (\<exists>results. scanChain scanReq None results \<and> pages = map pageItems results))
     \<and> (scanChain (scan deps s (sourceTable deps src)) None results \<longrightarrow>
          length (decodeItems deps (concat (map pageItems results)))
            = (\<Sum>r\<leftarrow>results. length (pageItems r))
          \<and> (\<exists>outcome s'.
                migrateAllRecordsToNewSchema deps schedA schedB dryRun src s = Some (outcome, s')
                \<and> (\<forall>report. outcome = Inr report
                      \<longrightarrow> migrated_objects report = (\<Sum>r\<leftarrow>results. length (pageItems r)))))"
proof (intro conjI impI)
  show "scanPages scanReq [] None = Some (Inr pages)
        \<longleftrightarrow> (\<exists>results. scanChain scanReq None results \<and> pages = map pageItems results)"
    by (simp add: scanPages_iff_chain)
next
  assume chain: "scanChain (scan deps s (sourceTable deps src)) None results"
  have total: "length (concat (map pageItems results)) = (\<Sum>r\<leftarrow>results. length (pageItems r))"
    by (simp add: length_concat comp_def)
  show "length (decodeItems deps (concat (map pageItems results)))
          = (\<Sum>r\<leftarrow>results. length (pageItems r))"
    using total by (simp add: decodeItems_def)
  from chain have "scanPages (scan deps s (sourceTable deps src)) [] None
      = Some (Inr (map pageItems results))"
    using scanPages_chain[of _ None results "[]"] by simp
  from migrate_after_scan[OF this, of schedA schedB dryRun]
  show "\<exists>outcome s'.
          migrateAllRecordsToNewSchema deps schedA schedB dryRun src s = Some (outcome, s')
          \<and> (\<forall>report. outcome = Inr report
                \<longrightarrow> migrated_objects report = (\<Sum>r\<leftarrow>results. length (pageItems r)))"
    using total by simp
qed

lemma store40_page1:
  "refScan 15 store40 refUniqueTableName None
    = Inr \<lparr>Items = Some (map rowAt [0..<15]), LastEvaluatedKey = Some 15\<rparr>"
  by code_simp

lemma store40_page2:
  "refScan 15 store40 refUniqueTableName (Some 15)
    = Inr \<lparr>Items = Some (map rowAt [15..<30]), LastEvaluatedKey = Some 30\<rparr>"
  by code_simp

lemma store40_page3:
  "refScan 15 store40 refUniqueTableName (Some 30)
    = Inr \<lparr>Items = Some (map rowAt [30..<40]), LastEvaluatedKey = None\<rparr>"
  by code_simp

lemma store40_report:
  "(case migrateAllRecordsToNewSchema deps40 [] [] False None store40 of
      Some (Inr report, s') \<Rightarrow> True | _ \<Rightarrow> False)"
  by code_simp

theorem scan_three_pages_of_forty_witness:
  "scanChain (scan deps40 store40 (sourceTable deps40 None)) None
     [\<lparr>Items = Some (map rowAt [0..<15]), LastEvaluatedKey = Some 15\<rparr>,
      \<lparr>Items = Some (map rowAt [15..<30]), LastEvaluatedKey = Some 30\<rparr>,
      \<lparr>Items = Some (map rowAt [30..<40]), LastEvaluatedKey = None\<rparr>]
   \<and> (\<exists>report s'.
         migrateAllRecordsToNewSchema deps40 [] [] False None store40
           = Some (Inr report, s')
         \<and> migrated_objects report = 40)"
proof -
  let ?deps = "deps40"
  let ?results = "[\<lparr>Items = Some (map rowAt [0..<15]), LastEvaluatedKey = Some (15::nat)\<rparr>,
      \<lparr>Items = Some (map rowAt [15..<30]), LastEvaluatedKey = Some 30\<rparr>,
      \<lparr>Items = Some (map rowAt [30..<40]), LastEvaluatedKey = None\<rparr>]"
  have name: "sourceTable ?deps None = refUniqueTableName"
    by (simp add: sourceTable_def refDeps_def deps40_def)
  have req: "scan ?deps = refScan 15"
    by (simp add: refDeps_def deps40_def)
  have chain: "scanChain (scan ?deps store40 (sourceTable ?deps None)) None ?results"
    unfolding name req
  proof (rule scanChain_next)
    show "refScan 15 store40 refUniqueTableName None
      = Inr \<lparr>Items = Some (map rowAt [0..<15]), LastEvaluatedKey = Some 15\<rparr>"
      by (rule store40_page1)
    show "LastEvaluatedKey \<lparr>Items = Some (map rowAt [0..<15]), LastEvaluatedKey = Some (15::nat)\<rparr>
      = Some 15" by simp
    show "scanChain (refScan 15 store40 refUniqueTableName) (Some 15)
      [\<lparr>Items = Some (map rowAt [15..<30]), LastEvaluatedKey = Some 30\<rparr>,
       \<lparr>Items = Some (map rowAt [30..<40]), LastEvaluatedKey = None\<rparr>]"
    proof (rule scanChain_next)
      show "refScan 15 store40 refUniqueTableName (Some 15)
        = Inr \<lparr>Items = Some (map rowAt [15..<30]), LastEvaluatedKey = Some 30\<rparr>"
        by (rule store40_page2)
      show "LastEvaluatedKey \<lparr>Items = Some (map rowAt [15..<30]), LastEvaluatedKey = Some (30::nat)\<rparr>
        = Some 30" by simp
      show "scanChain (refScan 15 store40 refUniqueTableName) (Some 30)
        [\<lparr>Items = Some (map rowAt [30..<40]), LastEvaluatedKey = None\<rparr>]"
      proof (rule scanChain_last)
        show "refScan 15 store40 refUniqueTableName (Some 30)
          = Inr \<lparr>Items = Some (map rowAt [30..<40]), LastEvaluatedKey = None\<rparr>"
          by (rule store40_page3)
        show "LastEvaluatedKey
            \<lparr>Items = Some (map rowAt [30..<40]), LastEvaluatedKey = None :: nat option\<rparr> = None"
          by simp
      qed
    qed
  qed
  have total: "(\<Sum>r\<leftarrow>?results. length (pageItems r)) = 40"
    by (simp add: pageItems_def)
  note inst = scan_follows_tokens_to_the_end[of _ _ ?deps store40 None ?results "[]" "[]" False]
  from inst[THEN conjunct2, rule_format, OF chain, THEN conjunct2]
  obtain outcome s' where
    run: "migrateAllRecordsToNewSchema ?deps [] [] False None store40 = Some (outcome, s')"
    and cnt': "\<forall>report. outcome = Inr report
       \<longrightarrow> migrated_objects report = (\<Sum>r\<leftarrow>?results. length (pageItems r))"
    by blast
  from cnt' have cnt: "\<forall>report. outcome = Inr report \<longrightarrow> migrated_objects report = 40"
    unfolding total .
  from store40_report run obtain report where "outcome = Inr report"
    by (cases outcome) simp_all
  with run cnt have "\<exists>report s'.
         migrateAllRecordsToNewSchema ?deps [] [] False None store40 = Some (Inr report, s')
         \<and> migrated_objects report = 40"
    by blast
  with chain show ?thesis by (rule conjI)
qed

text \<open>
  Claim C9. Whenever the migration returns a report, the scan had returned pages and
  \<open>migrated.objects\<close> is the number of scanned records (which is the number of
  decoded objects), whatever \<open>dryRun\<close> and the schedules are and whatever was
  written; with \<open>dryRun\<close> the store is left as it was. Every other run from the same
  store that returns a report reports the same number.
\<close>

theorem migrated_objects_is_scanned_count:
  fixes deps :: "('s, 'k, 'o, 't::linorder, 'a) collaborators"
  assumes "migrateAllRecordsToNewSchema deps schedA schedB dryRun src s = Some (Inr report, s')"
  shows "\<exists>pages.
           scanPages (scan deps s (sourceTable deps src)) [] None = Some (Inr pages)
           \<and> length (decodeItems deps (concat pages)) = length (concat pages)
           \<and> migrated_objects report = length (concat pages)
           \<and> (dryRun \<longrightarrow> s' = s)
           \<and> (\<forall>schedA' schedB' dryRun' report' s''.
                 migrateAllRecordsToNewSchema deps schedA' schedB' dryRun' src s
                   = Some (Inr report', s'')
                 \<longrightarrow> migrated_objects report' = migrated_objects report)"
proof -
  from migrate_report_scan[OF assms] obtain pages where
    pages: "scanPages (scan deps s (sourceTable deps src)) [] None = Some (Inr pages)"
    and cnt: "migrated_objects report = length (concat pages)"
    by blast
  have dry: "dryRun \<longrightarrow> s' = s"
    using assms by (cases dryRun) (auto dest: migrate_dryRun_store)
  have same: "migrated_objects report' = migrated_objects report"
    if "migrateAllRecordsToNewSchema deps schedA' schedB' dryRun' src s = Some (Inr report', s'')"
    for schedA' schedB' dryRun' report' s''
    using migrate_report_scan[OF that] pages cnt by auto
  have "length (decodeItems deps (concat pages)) = length (concat pages)"
    by (simp add: decodeItems_def)
  with pages cnt dry same show ?thesis by blast
qed

lemma driftedStore_dryRun:
  "migrateAllRecordsToNewSchema depsV2 [] [] True None driftedStore
     = Some (Inr \<lparr>from_table = refUniqueTableName, to_table = refUniqueTableName,
                  modified_writtenUniqueKeyRecords = 2, migrated_objects = 3\<rparr>,
             driftedStore)"
  by code_simp

theorem dry_run_over_three_records_witness:
  "migrateAllRecordsToNewSchema depsV2 [] [] True None driftedStore
     = Some (Inr \<lparr>from_table = refUniqueTableName, to_table = refUniqueTableName,
                  modified_writtenUniqueKeyRecords = 2, migrated_objects = 3\<rparr>,
             driftedStore)
   \<and> (\<exists>pages.
         scanPages (scan depsV2 driftedStore (sourceTable depsV2 None)) [] None
           = Some (Inr pages)
         \<and> length (concat pages) = 3)"
  using migrated_objects_is_scanned_count[OF driftedStore_dryRun] driftedStore_dryRun
  by auto

text \<open>
  Claim C10. A response whose \<open>Items\<close> is absent adds an empty page, and the loop goes
  on with the token of the response (or ends when there is none). When the scan returns
  no record at all, the migration returns the report with both counts zero and the store
  is unchanged.
\<close>

theorem absent_items_is_an_empty_page:
  fixes deps :: "('s, 'k, 'o, 't::linorder, 'a) collaborators"
  shows
    "(scanReq tok = Inr result \<longrightarrow> Items result = None \<longrightarrow>
        scanPages scanReq pages tok =
          (case LastEvaluatedKey result of
             None \<Rightarrow> Some (Inr (pages @ [[]]))
           | Some k \<Rightarrow> scanPages scanReq (pages @ [[]]) (Some k)))
     \<and> (scanPages (scan deps s (sourceTable deps src)) [] None = Some (Inr pgs) \<longrightarrow>
          concat pgs = [] \<longrightarrow>
          migrateAllRecordsToNewSchema deps schedA schedB dryRun src s =
            Some (Inr \<lparr>from_table = sourceTable deps src,
                       to_table = uniqueKeyTableName deps,
                       modified_writtenUniqueKeyRecords = 0,
                       migrated_objects = 0\<rparr>, s))"
proof (intro conjI impI)
  assume "scanReq tok = Inr result" "Items result = None"
  then show "scanPages scanReq pages tok =
          (case LastEvaluatedKey result of
             None \<Rightarrow> Some (Inr (pages @ [[]]))
           | Some k \<Rightarrow> scanPages scanReq (pages @ [[]]) (Some k))"
    by (subst scanPages.simps) (simp add: pageItems_def split: option.split)
next
  assume scanned: "scanPages (scan deps s (sourceTable deps src)) [] None = Some (Inr pgs)"
    and empty: "concat pgs = []"
  have none: "decodeItems deps (concat pgs) = []"
    unfolding empty by (simp add: decodeItems_def)
  show "migrateAllRecordsToNewSchema deps schedA schedB dryRun src s =
            Some (Inr \<lparr>from_table = sourceTable deps src,
                       to_table = uniqueKeyTableName deps,
                       modified_writtenUniqueKeyRecords = 0,
                       migrated_objects = 0\<rparr>, s)"
    by (simp add: migrateAllRecordsToNewSchema_def Let_def scanned none
        reconcilePhase_Nil rewritePhase_Nil promiseAll_initPhase initPhase_simps)
qed

lemma absentItems_scan:
  "scanPages (scan absentItemsDeps store40 (sourceTable absentItemsDeps None)) [] None
     = Some (Inr [[], []])"
  by code_simp

theorem absent_items_twice_witness:
  "scan absentItemsDeps store40 (sourceTable absentItemsDeps None) None
     = Inr \<lparr>Items = None, LastEvaluatedKey = Some 1\<rparr>
   \<and> scanPages (scan absentItemsDeps store40 (sourceTable absentItemsDeps None)) [] None
     = Some (Inr [[], []])
   \<and> migrateAllRecordsToNewSchema absentItemsDeps [] [] False None store40 =
       Some (Inr \<lparr>from_table = refUniqueTableName, to_table = refUniqueTableName,
                  modified_writtenUniqueKeyRecords = 0, migrated_objects = 0\<rparr>, store40)"
proof -
  have first: "scan absentItemsDeps store40 (sourceTable absentItemsDeps None) None
     = Inr \<lparr>Items = None, LastEvaluatedKey = Some 1\<rparr>"
    by (simp add: absentItemsDeps_def)
  have names: "sourceTable absentItemsDeps None = refUniqueTableName"
    "uniqueKeyTableName absentItemsDeps = refUniqueTableName"
    by (simp_all add: absentItemsDeps_def sourceTable_def refDeps_def)
  from absent_items_is_an_empty_page[of _ _ _ _ absentItemsDeps store40 None "[[], []]"
      "[]" "[]" False, THEN conjunct2, rule_format, OF absentItems_scan]
  have "migrateAllRecordsToNewSchema absentItemsDeps [] [] False None store40 =
       Some (Inr \<lparr>from_table = refUniqueTableName, to_table = refUniqueTableName,
                  modified_writtenUniqueKeyRecords = 0, migrated_objects = 0\<rparr>, store40)"
    by (simp add: names)
  with first absentItems_scan show ?thesis by blast
qed

section \<open>Claims about the lookup and the decision of the reconciler\<close>


lemma promiseAll_hd:
  "rejections st \<noteq> [] \<Longrightarrow> promiseAll st = Some (hd (rejections st))"
  by (cases "rejections st") (simp_all add: promiseAll_def)

lemma promiseAll_None: "promiseAll st = None \<longleftrightarrow> rejections st = []"
  by (cases "rejections st") (simp_all add: promiseAll_def)

lemma migrate_reconcile_rejected:
  assumes "scanPages (scan deps s (sourceTable deps src)) [] None = Some (Inr pages)"
    and "rejections (reconcilePhase dryRun deps (concat pages)
                      (decodeItems deps (concat pages)) schedA s) \<noteq> []"
  shows "migrateAllRecordsToNewSchema deps schedA schedB dryRun src s
     = Some (Inl (hd (rejections (reconcilePhase dryRun deps (concat pages)
                      (decodeItems deps (concat pages)) schedA s))),
             store (reconcilePhase dryRun deps (concat pages)
                      (decodeItems deps (concat pages)) schedA s))"
  using assms by (simp add: migrateAllRecordsToNewSchema_def Let_def promiseAll_hd)










lemma migrate_rewrite_rejected:
  assumes "scanPages (scan deps s (sourceTable deps src)) [] None = Some (Inr pages)"
    and "rejections (reconcilePhase False deps (concat pages)
                      (decodeItems deps (concat pages)) schedA s) = []"
    and "rejections (rewritePhase deps (decodeItems deps (concat pages)) schedB
           (store (reconcilePhase False deps (concat pages)
                      (decodeItems deps (concat pages)) schedA s))) \<noteq> []"
  shows "migrateAllRecordsToNewSchema deps schedA schedB False src s
     = Some (Inl (hd (rejections (rewritePhase deps (decodeItems deps (concat pages)) schedB
           (store (reconcilePhase False deps (concat pages)
                      (decodeItems deps (concat pages)) schedA s))))),
             store (rewritePhase deps (decodeItems deps (concat pages)) schedB
           (store (reconcilePhase False deps (concat pages)
                      (decodeItems deps (concat pages)) schedA s))))"
  using assms
  by (simp add: migrateAllRecordsToNewSchema_def Let_def promiseAll_hd promiseAll_None[THEN iffD2])

lemma migrate_report_no_rejection:
  assumes "scanPages (scan deps s (sourceTable deps src)) [] None = Some (Inr pages)"
    and "migrateAllRecordsToNewSchema deps schedA schedB dryRun src s = Some (Inr report, s')"
  shows "rejections (reconcilePhase dryRun deps (concat pages)
                      (decodeItems deps (concat pages)) schedA s) = []
     \<and> (\<not> dryRun \<longrightarrow>
          rejections (rewritePhase deps (decodeItems deps (concat pages)) schedB
           (store (reconcilePhase dryRun deps (concat pages)
                      (decodeItems deps (concat pages)) schedA s))) = [])"
  using assms
  by (auto simp: migrateAllRecordsToNewSchema_def Let_def promiseAll_None
      split: option.splits if_splits)

text \<open>
  Claim C6, as amended. Every task of the first fan-out runs to its end whether or not
  another one fails; when one fails, the call ends with the first rejection and the
  second fan-out does not start. Otherwise, without \<open>dryRun\<close>, every task of the
  second fan-out runs to its end, and when one fails the call ends with the first
  rejection. A report is returned only when no task of either fan-out failed.
\<close>

theorem failed_task_rejects_the_call:
  fixes deps :: "('s, 'k, 'o, 't::linorder, 'a) collaborators"
  assumes scanned: "scanPages (scan deps s (sourceTable deps src)) [] None = Some (Inr pages)"
    and items: "items = concat pages"
    and objects: "objects = decodeItems deps items"
    and stA: "stA = reconcilePhase dryRun deps items objects schedA s"
    and stB: "stB = rewritePhase deps objects schedB (store stA)"
    and run: "run = migrateAllRecordsToNewSchema deps schedA schedB dryRun src s"
  shows "(\<forall>i < length objects. taskStates stA ! i = Settled)
     \<and> (rejections stA \<noteq> [] \<longrightarrow> run = Some (Inl (hd (rejections stA)), store stA))
     \<and> (rejections stA = [] \<longrightarrow> \<not> dryRun \<longrightarrow>
          (\<forall>i < length objects. taskStates stB ! i = Settled)
          \<and> (rejections stB \<noteq> [] \<longrightarrow> run = Some (Inl (hd (rejections stB)), store stB)))
     \<and> (\<forall>report s'. run = Some (Inr report, s')
          \<longrightarrow> rejections stA = [] \<and> (\<not> dryRun \<longrightarrow> rejections stB = []))"
proof (intro conjI impI allI)
  fix i assume "i < length objects"
  then show "taskStates stA ! i = Settled"
    unfolding stA by (rule reconcilePhase_all_settled)
next
  assume "rejections stA \<noteq> []"
  then show "run = Some (Inl (hd (rejections stA)), store stA)"
    unfolding run stA objects items
    by (intro migrate_reconcile_rejected[OF scanned])
next
  fix i assume "i < length objects"
  then show "taskStates stB ! i = Settled"
    unfolding stB by (rule rewritePhase_all_settled)
next
  assume "rejections stA = []" "\<not> dryRun" "rejections stB \<noteq> []"
  then show "run = Some (Inl (hd (rejections stB)), store stB)"
    using migrate_rewrite_rejected[OF scanned, of schedA schedB]
    by (simp add: run stA stB objects items)
next
  fix report s' assume "run = Some (Inr report, s')"
  then show "rejections stA = []"
    using migrate_report_no_rejection[OF scanned, of schedA schedB dryRun report s']
    by (simp add: run stA objects items)
next
  fix report s' assume "run = Some (Inr report, s')" "\<not> dryRun"
  then show "rejections stB = []"
    using migrate_report_no_rejection[OF scanned, of schedA schedB dryRun report s']
    by (simp add: run stA stB objects items)
qed

text \<open>
  The claim as stated fails: one \<open>put\<close> is rejected, the sibling task still writes
  its row, and the caller gets the error, not a report.
\<close>

theorem throttled_put_gives_no_report_counterexample:
  "migrateAllRecordsToNewSchema throttledPutDeps [] [] False None driftedStore
     = Some (Inl (TransportFailure ''throttled''),
             driftedStore\<lparr>uniqueTable :=
               \<lparr>item_p = ''v2:cy'', item_o = person ''u-cy'' 3 ''cy''\<rparr>
                 # uniqueTable driftedStore\<rparr>)"
  by code_simp

lemma throttledUpsert_scan:
  "scanPages (scan throttledUpsertDeps driftedStore (sourceTable throttledUpsertDeps None))
      [] None
     = Some (Inr [take 2 (uniqueTable driftedStore), drop 2 (uniqueTable driftedStore)])"
  by code_simp

lemma throttledUpsert_phases:
  "rejections (reconcilePhase False throttledUpsertDeps (uniqueTable driftedStore)
      (decodeItems throttledUpsertDeps (uniqueTable driftedStore)) [] driftedStore) = []
   \<and> rejections (rewritePhase throttledUpsertDeps
        (decodeItems throttledUpsertDeps (uniqueTable driftedStore)) []
        (store (reconcilePhase False throttledUpsertDeps (uniqueTable driftedStore)
          (decodeItems throttledUpsertDeps (uniqueTable driftedStore)) [] driftedStore)))
      = [TransportFailure ''throttled'']"
  by code_simp

theorem throttled_upsert_rejects_witness:
  "rejections (reconcilePhase False throttledUpsertDeps (uniqueTable driftedStore)
      (decodeItems throttledUpsertDeps (uniqueTable driftedStore)) [] driftedStore) = []
   \<and> rejections (rewritePhase throttledUpsertDeps
        (decodeItems throttledUpsertDeps (uniqueTable driftedStore)) []
        (store (reconcilePhase False throttledUpsertDeps (uniqueTable driftedStore)
          (decodeItems throttledUpsertDeps (uniqueTable driftedStore)) [] driftedStore)))
      = [TransportFailure ''throttled'']
   \<and> map_option fst
        (migrateAllRecordsToNewSchema throttledUpsertDeps [] [] False None driftedStore)
       = Some (Inl (TransportFailure ''throttled''))"
proof -
  have c: "uniqueTable driftedStore
      = concat [take 2 (uniqueTable driftedStore), drop 2 (uniqueTable driftedStore)]"
    by simp
  note inst = failed_task_rejects_the_call[OF throttledUpsert_scan c refl refl refl refl,
      of False "[]" "[]"]
  from inst throttledUpsert_phases
  have "migrateAllRecordsToNewSchema throttledUpsertDeps [] [] False None driftedStore
      = Some (Inl (hd [TransportFailure ''throttled'']),
          store (rewritePhase throttledUpsertDeps
            (decodeItems throttledUpsertDeps (uniqueTable driftedStore)) []
            (store (reconcilePhase False throttledUpsertDeps (uniqueTable driftedStore)
              (decodeItems throttledUpsertDeps (uniqueTable driftedStore)) [] driftedStore))))"
    by simp
  then have "map_option fst
        (migrateAllRecordsToNewSchema throttledUpsertDeps [] [] False None driftedStore)
       = Some (Inl (TransportFailure ''throttled''))"
    by simp
  with throttledUpsert_phases show ?thesis by blast
qed

section \<open>Claims about the dry run\<close>

















section \<open>Claims about identities, on the reference store\<close>






lemma refPut_table:
  "refPut it s = Inr s' \<Longrightarrow>
     uniqueTable s' = it # filter (\<lambda>x. item_p x \<noteq> item_p it) (uniqueTable s)"
  by (auto simp: refPut_def)

lemma refPut_Inr: "\<exists>s'. refPut it s = Inr s'"
  by (simp add: refPut_def)




















text \<open>
  With another source table the unique index need not hold the entity: a row scanned
  under its current key is not looked up, and \<open>upsert\<close> assigns a new identity.
\<close>

lemma custom_source_mints_identity:
  "migrateAllRecordsToNewSchema depsV2 [] [] False (Some ''snapshot'') snapshotStore
     = Some (Inr \<lparr>from_table = ''snapshot'', to_table = refUniqueTableName,
                  modified_writtenUniqueKeyRecords = 0, migrated_objects = 1\<rparr>,
             snapshotStore\<lparr>uniqueTable :=
               [\<lparr>item_p = ''v2:ann'', item_o = person (mintUuid 0) 5 ''ann''\<rparr>],
               minted := 1\<rparr>)"
  by code_simp



section \<open>Claim about a second run, on the reference store\<close>







lemma rowOf_simps: "item_p (rowOf keyOf e) = keyOf (attrs e)" "item_o (rowOf keyOf e) = e"
  by (simp_all add: rowOf_def)

















end
